theory Spec2Isabelle
  imports Main "HOL-Library.Word" "HOL-Library.Multiset"
begin

section \<open>JavaScript strings and values\<close>

text \<open>
  The worker (\<^verbatim>\<open>background-worker.js\<close>) is JavaScript. A JavaScript string is a
  sequence of 16-bit code units; \<open>str\<close> turns an ASCII literal into one.
\<close>

type_synonym jsstring = "16 word list"

definition ch :: "char \<Rightarrow> 16 word" where
  "ch c = of_nat (of_char c)"

definition str :: "string \<Rightarrow> jsstring" where
  "str s = map ch s"

text \<open>
  The values \<^verbatim>\<open>JSON.parse\<close> produces, and \<^verbatim>\<open>undefined\<close> (what reading an absent
  property gives). A number keeps the numeral it was written as: its value is a
  floating-point number, which nothing below computes with. An object keeps its members in
  source order; where a key occurs twice the later member is the property's value.
\<close>

datatype jsval =
    JUndefined
  | JNull
  | JBool bool
  | JNumber jsstring
  | JString jsstring
  | JArray "jsval list"
  | JObject "(jsstring \<times> jsval) list"

datatype error =
    SyntaxError
  | TypeError
  | FetchFailed
  | Error jsval
  | ContactNotFound

section \<open>The built-in \<^verbatim>\<open>JSON.parse\<close>\<close>

text \<open>
  \<^verbatim>\<open>JSON.parse\<close> is a built-in of the language, not code of the repository. It is
  modelled after the JSON grammar (ECMA-404, as ECMAScript applies it): a lexer that reads
  one code unit at a time, followed by a parser that reads one token at a time and keeps
  the open arrays and objects on a stack. Both are structurally recursive, hence total;
  text that is not JSON is the value \<open>Inl SyntaxError\<close>.
\<close>

datatype token =
    TLBrace | TRBrace | TLBracket | TRBracket | TColon | TComma
  | TString jsstring | TNumber jsstring | TTrue | TFalse | TNull

datatype numstate =
    NMinus | NZero | NInt | NDot | NFrac | NExp | NExpSign | NExpDigits

datatype lexstate =
    LStart
  | LString jsstring
  | LEscape jsstring
  | LUnicode jsstring "nat list"
  | LNumber numstate jsstring
  | LLiteral jsstring token

definition is_json_ws :: "16 word \<Rightarrow> bool" where
  "is_json_ws c = (c = 0x20 \<or> c = 0x09 \<or> c = 0x0A \<or> c = 0x0D)"

definition is_digit :: "16 word \<Rightarrow> bool" where
  "is_digit c = (0x30 \<le> c \<and> c \<le> 0x39)"

definition hex_val :: "16 word \<Rightarrow> nat option" where
  "hex_val c =
     (if 0x30 \<le> c \<and> c \<le> 0x39 then Some (unat c - 0x30)
      else if 0x41 \<le> c \<and> c \<le> 0x46 then Some (unat c - 0x41 + 10)
      else if 0x61 \<le> c \<and> c \<le> 0x66 then Some (unat c - 0x61 + 10)
      else None)"

definition start_char :: "16 word \<Rightarrow> (token list \<times> lexstate) option" where
  "start_char c =
     (if is_json_ws c then Some ([], LStart)
      else if c = ch CHR ''{'' then Some ([TLBrace], LStart)
      else if c = ch CHR ''}'' then Some ([TRBrace], LStart)
      else if c = ch CHR ''['' then Some ([TLBracket], LStart)
      else if c = ch CHR '']'' then Some ([TRBracket], LStart)
      else if c = ch CHR '':'' then Some ([TColon], LStart)
      else if c = ch CHR '','' then Some ([TComma], LStart)
      else if c = 0x22 then Some ([], LString [])
      else if c = ch CHR ''-'' then Some ([], LNumber NMinus [c])
      else if c = ch CHR ''0'' then Some ([], LNumber NZero [c])
      else if is_digit c then Some ([], LNumber NInt [c])
      else if c = ch CHR ''t'' then Some ([], LLiteral (str ''rue'') TTrue)
      else if c = ch CHR ''f'' then Some ([], LLiteral (str ''alse'') TFalse)
      else if c = ch CHR ''n'' then Some ([], LLiteral (str ''ull'') TNull)
      else None)"

definition is_exp_mark :: "16 word \<Rightarrow> bool" where
  "is_exp_mark c = (c = ch CHR ''e'' \<or> c = ch CHR ''E'')"

fun num_step :: "numstate \<Rightarrow> 16 word \<Rightarrow> numstate option" where
  "num_step NMinus c =
     (if c = ch CHR ''0'' then Some NZero else if is_digit c then Some NInt else None)"
| "num_step NZero c =
     (if c = ch CHR ''.'' then Some NDot else if is_exp_mark c then Some NExp else None)"
| "num_step NInt c =
     (if is_digit c then Some NInt
      else if c = ch CHR ''.'' then Some NDot
      else if is_exp_mark c then Some NExp else None)"
| "num_step NDot c = (if is_digit c then Some NFrac else None)"
| "num_step NFrac c =
     (if is_digit c then Some NFrac else if is_exp_mark c then Some NExp else None)"
| "num_step NExp c =
     (if c = ch CHR ''+'' \<or> c = ch CHR ''-'' then Some NExpSign
      else if is_digit c then Some NExpDigits else None)"
| "num_step NExpSign c = (if is_digit c then Some NExpDigits else None)"
| "num_step NExpDigits c = (if is_digit c then Some NExpDigits else None)"

fun num_complete :: "numstate \<Rightarrow> bool" where
  "num_complete NZero = True"
| "num_complete NInt = True"
| "num_complete NFrac = True"
| "num_complete NExpDigits = True"
| "num_complete _ = False"

definition escape_char :: "16 word \<Rightarrow> 16 word option" where
  "escape_char c =
     (if c = 0x22 then Some 0x22
      else if c = 0x5C then Some 0x5C
      else if c = ch CHR ''/'' then Some (ch CHR ''/'')
      else if c = ch CHR ''b'' then Some 0x08
      else if c = ch CHR ''f'' then Some 0x0C
      else if c = ch CHR ''n'' then Some 0x0A
      else if c = ch CHR ''r'' then Some 0x0D
      else if c = ch CHR ''t'' then Some 0x09
      else None)"

fun lex_step :: "lexstate \<Rightarrow> 16 word \<Rightarrow> (token list \<times> lexstate) option" where
  "lex_step LStart c = start_char c"
| "lex_step (LString acc) c =
     (if c = 0x22 then Some ([TString acc], LStart)
      else if c = 0x5C then Some ([], LEscape acc)
      else if c < 0x20 then None
      else Some ([], LString (acc @ [c])))"
| "lex_step (LEscape acc) c =
     (if c = ch CHR ''u'' then Some ([], LUnicode acc [])
      else (case escape_char c of
              None \<Rightarrow> None
            | Some e \<Rightarrow> Some ([], LString (acc @ [e]))))"
| "lex_step (LUnicode acc hs) c =
     (case hex_val c of
        None \<Rightarrow> None
      | Some h \<Rightarrow>
          (if length hs = 3
           then Some ([], LString (acc @ [of_nat (foldl (\<lambda>a d. 16 * a + d) 0 (hs @ [h]))]))
           else Some ([], LUnicode acc (hs @ [h]))))"
| "lex_step (LNumber ns acc) c =
     (case num_step ns c of
        Some ns' \<Rightarrow> Some ([], LNumber ns' (acc @ [c]))
      | None \<Rightarrow>
          (if num_complete ns
           then (case start_char c of
                   None \<Rightarrow> None
                 | Some (ts, st) \<Rightarrow> Some (TNumber acc # ts, st))
           else None))"
| "lex_step (LLiteral [] tok) c = None"
| "lex_step (LLiteral (r # rs) tok) c =
     (if c \<noteq> r then None
      else if rs = [] then Some ([tok], LStart)
      else Some ([], LLiteral rs tok))"

fun lex_end :: "lexstate \<Rightarrow> token list option" where
  "lex_end LStart = Some []"
| "lex_end (LNumber ns acc) = (if num_complete ns then Some [TNumber acc] else None)"
| "lex_end _ = None"

fun lexer :: "lexstate \<Rightarrow> jsstring \<Rightarrow> token list option" where
  "lexer st [] = lex_end st"
| "lexer st (c # cs) =
     (case lex_step st c of
        None \<Rightarrow> None
      | Some (ts, st') \<Rightarrow>
          (case lexer st' cs of None \<Rightarrow> None | Some r \<Rightarrow> Some (ts @ r)))"

text \<open>
  The parser. A frame is an array or object that has been opened and not yet closed:
  \<open>InArray\<close> holds the elements read so far, \<open>InObject\<close> the members read so far,
  \<open>InMember\<close> in addition the key whose value is being read.
\<close>

datatype frame =
    InArray "jsval list"
  | InObject "(jsstring \<times> jsval) list"
  | InMember "(jsstring \<times> jsval) list" jsstring

datatype expect =
    ExpValue | ExpValueOrClose | ExpKeyOrClose | ExpKey | ExpColon | ExpCommaOrClose

datatype pstate =
    Parsing expect "frame list"
  | Finished jsval

fun deliver :: "jsval \<Rightarrow> frame list \<Rightarrow> pstate option" where
  "deliver v [] = Some (Finished v)"
| "deliver v (InArray es # fs) = Some (Parsing ExpCommaOrClose (InArray (es @ [v]) # fs))"
| "deliver v (InMember kvs k # fs) =
     Some (Parsing ExpCommaOrClose (InObject (kvs @ [(k, v)]) # fs))"
| "deliver v (InObject kvs # fs) = None"

definition expects_value :: "expect \<Rightarrow> bool" where
  "expects_value e = (e = ExpValue \<or> e = ExpValueOrClose)"

fun parse_step :: "pstate \<Rightarrow> token \<Rightarrow> pstate option" where
  "parse_step (Finished v) tok = None"
| "parse_step (Parsing e fs) (TString s) =
     (if expects_value e then deliver (JString s) fs
      else if e = ExpKeyOrClose \<or> e = ExpKey
      then (case fs of
              InObject kvs # fs' \<Rightarrow> Some (Parsing ExpColon (InMember kvs s # fs'))
            | _ \<Rightarrow> None)
      else None)"
| "parse_step (Parsing e fs) (TNumber n) =
     (if expects_value e then deliver (JNumber n) fs else None)"
| "parse_step (Parsing e fs) TTrue =
     (if expects_value e then deliver (JBool True) fs else None)"
| "parse_step (Parsing e fs) TFalse =
     (if expects_value e then deliver (JBool False) fs else None)"
| "parse_step (Parsing e fs) TNull =
     (if expects_value e then deliver JNull fs else None)"
| "parse_step (Parsing e fs) TLBracket =
     (if expects_value e then Some (Parsing ExpValueOrClose (InArray [] # fs)) else None)"
| "parse_step (Parsing e fs) TLBrace =
     (if expects_value e then Some (Parsing ExpKeyOrClose (InObject [] # fs)) else None)"
| "parse_step (Parsing e fs) TRBracket =
     (if e = ExpValueOrClose \<or> e = ExpCommaOrClose
      then (case fs of InArray es # fs' \<Rightarrow> deliver (JArray es) fs' | _ \<Rightarrow> None)
      else None)"
| "parse_step (Parsing e fs) TRBrace =
     (if e = ExpKeyOrClose \<or> e = ExpCommaOrClose
      then (case fs of InObject kvs # fs' \<Rightarrow> deliver (JObject kvs) fs' | _ \<Rightarrow> None)
      else None)"
| "parse_step (Parsing e fs) TComma =
     (if e = ExpCommaOrClose
      then (case fs of
              InArray es # fs' \<Rightarrow> Some (Parsing ExpValue fs)
            | InObject kvs # fs' \<Rightarrow> Some (Parsing ExpKey fs)
            | _ \<Rightarrow> None)
      else None)"
| "parse_step (Parsing e fs) TColon =
     (if e = ExpColon
      then (case fs of InMember kvs k # fs' \<Rightarrow> Some (Parsing ExpValue fs) | _ \<Rightarrow> None)
      else None)"

fun parse_tokens :: "pstate \<Rightarrow> token list \<Rightarrow> pstate option" where
  "parse_tokens st [] = Some st"
| "parse_tokens st (t # ts) =
     (case parse_step st t of None \<Rightarrow> None | Some st' \<Rightarrow> parse_tokens st' ts)"

definition JSON_parse :: "jsstring \<Rightarrow> error + jsval" where
  "JSON_parse s =
     (case lexer LStart s of
        None \<Rightarrow> Inl SyntaxError
      | Some ts \<Rightarrow>
          (case parse_tokens (Parsing ExpValue []) ts of
             Some (Finished v) \<Rightarrow> Inr v
           | _ \<Rightarrow> Inl SyntaxError))"

section \<open>Operations of the language on values\<close>

text \<open>
  What the host environment supplies and the code does not decide: the answer of the
  completion service to the request made for a conversation, with the time the request
  takes, and the two operations on numbers that are floating-point arithmetic (whether a
  number is zero, and its decimal form). A response carries \<^verbatim>\<open>res.ok\<close>,
  \<^verbatim>\<open>res.statusText\<close> and the text of its body.
\<close>

datatype fetch_result =
    FetchRejects
  | FetchResolves bool jsstring jsstring

record 'id host =
  fetch :: "'id \<Rightarrow> nat \<times> fetch_result"
  numberIsZero :: "jsstring \<Rightarrow> bool"
  numberToString :: "jsstring \<Rightarrow> jsstring"

fun truthy :: "'id host \<Rightarrow> jsval \<Rightarrow> bool" where
  "truthy h JUndefined = False"
| "truthy h JNull = False"
| "truthy h (JBool b) = b"
| "truthy h (JNumber n) = (\<not> numberIsZero h n)"
| "truthy h (JString s) = (s \<noteq> [])"
| "truthy h (JArray xs) = True"
| "truthy h (JObject kvs) = True"

text \<open>
  Reading a property. The names the worker reads (\<^verbatim>\<open>replies\<close>, \<^verbatim>\<open>choices\<close>,
  \<^verbatim>\<open>message\<close>, \<^verbatim>\<open>content\<close>, \<^verbatim>\<open>error\<close>) are no built-in property of any
  value, so only an object's own members can answer; reading from \<^verbatim>\<open>null\<close> or
  \<^verbatim>\<open>undefined\<close> raises a TypeError.
\<close>

fun member :: "jsval \<Rightarrow> jsstring \<Rightarrow> jsval" where
  "member (JObject kvs) k = (case map_of (rev kvs) k of None \<Rightarrow> JUndefined | Some v \<Rightarrow> v)"
| "member v k = JUndefined"

definition nullish :: "jsval \<Rightarrow> bool" where
  "nullish v = (v = JNull \<or> v = JUndefined)"

definition getProp :: "jsval \<Rightarrow> jsstring \<Rightarrow> error + jsval" where
  "getProp v k = (if nullish v then Inl TypeError else Inr (member v k))"

text \<open>The element read \<^verbatim>\<open>v[0]\<close>.\<close>

fun getFirst :: "jsval \<Rightarrow> error + jsval" where
  "getFirst JUndefined = Inl TypeError"
| "getFirst JNull = Inl TypeError"
| "getFirst (JArray xs) = Inr (case xs of [] \<Rightarrow> JUndefined | x # _ \<Rightarrow> x)"
| "getFirst (JString s) = Inr (case s of [] \<Rightarrow> JUndefined | c # _ \<Rightarrow> JString [c])"
| "getFirst v = Inr (member v (str ''0''))"

fun isArray :: "jsval \<Rightarrow> bool" where
  "isArray (JArray xs) = True"
| "isArray v = False"

text \<open>
  The conversion to a string that \<^verbatim>\<open>JSON.parse\<close> applies to its argument. An array
  is its elements' strings joined by commas, \<^verbatim>\<open>null\<close> and \<^verbatim>\<open>undefined\<close>
  elements giving the empty string.
\<close>

fun join :: "jsstring list \<Rightarrow> jsstring" where
  "join [] = []"
| "join [s] = s"
| "join (s # t # ss) = s @ ch CHR '','' # join (t # ss)"

fun ToString :: "'id host \<Rightarrow> jsval \<Rightarrow> jsstring" where
  "ToString h JUndefined = str ''undefined''"
| "ToString h JNull = str ''null''"
| "ToString h (JBool b) = (if b then str ''true'' else str ''false'')"
| "ToString h (JNumber n) = numberToString h n"
| "ToString h (JString s) = s"
| "ToString h (JArray xs) =
     join (map (\<lambda>x. if nullish x then [] else ToString h x) xs)"
| "ToString h (JObject kvs) = str ''[object Object]''"

text \<open>
  \<^verbatim>\<open>String.prototype.trim\<close> removes the white space and line terminators of
  ECMAScript from both ends.
\<close>

definition is_js_space :: "16 word \<Rightarrow> bool" where
  "is_js_space c =
     (c = 0x09 \<or> c = 0x0A \<or> c = 0x0B \<or> c = 0x0C \<or> c = 0x0D \<or> c = 0x20 \<or> c = 0xA0
      \<or> c = 0x1680 \<or> (0x2000 \<le> c \<and> c \<le> 0x200A) \<or> c = 0x2028 \<or> c = 0x2029
      \<or> c = 0x202F \<or> c = 0x205F \<or> c = 0x3000 \<or> c = 0xFEFF)"

definition trim :: "jsstring \<Rightarrow> jsstring" where
  "trim s = rev (dropWhile is_js_space (rev (dropWhile is_js_space s)))"

section \<open>The state the worker reads and writes\<close>

text \<open>
  Conversation ids are opaque: \<open>'id\<close>. The stores are kept in parsed form: each
  \<^verbatim>\<open>localStorage\<close> item the worker reads with \<^verbatim>\<open>JSON.parse(... || '{}')\<close> is the
  map or list it parses to, an absent item being the empty one. A setting
  \<^verbatim>\<open>proactive\<close> is a boolean or absent, a role one of three, a timestamp and an unread
  count whole numbers (JavaScript computes with them exactly below \<open>2\<^sup>5\<^sup>3\<close>). A
  message's \<^verbatim>\<open>id\<close> (\<^verbatim>\<open>Date.now() + Math.random()\<close>, a floating-point sum) is left
  out; nothing reads it.
  The flags \<^verbatim>\<open>processing_<id>\<close> of \<^verbatim>\<open>sessionStorage\<close> are the map \<open>processing\<close>
  from ids to the stored string. \<open>timeouts\<close> are the callbacks registered with
  \<^verbatim>\<open>setTimeout\<close> and not yet run: the time each becomes due and the id whose flag it
  removes. \<open>clock\<close> is what \<^verbatim>\<open>Date.now()\<close> returns, \<open>console\<close> what has been logged.
\<close>

datatype role = User | Assistant | System

record message =
  role :: role
  content :: jsval
  timestamp :: int

record settings =
  proactive :: "bool option"

record 'id contact =
  contact_id :: 'id
  contact_name :: jsstring
  contact_persona :: jsstring
  contact_note :: jsstring

datatype 'id log =
    NewMessages 'id int
  | Cleared 'id
  | Triggering 'id
  | ErrorDuring 'id error
  | ApiCallFailed 'id error

record 'id world =
  hidden :: bool
  chatSettings :: "'id \<rightharpoonup> settings"
  contacts :: "'id contact list"
  chats :: "'id \<rightharpoonup> message list"
  unreadCounts :: "'id \<rightharpoonup> int"
  apiUrl :: "jsstring option"
  apiKey :: "jsstring option"
  processing :: "'id \<rightharpoonup> jsstring"
  timeouts :: "(int \<times> 'id) list"
  clock :: int
  console :: "'id log list"

definition PROACTIVE_CHECK_INTERVAL :: int where
  "PROACTIVE_CHECK_INTERVAL = 15000"

definition PROACTIVE_REPLY_DELAY :: int where
  "PROACTIVE_REPLY_DELAY = 300000"

definition console_log :: "'id log \<Rightarrow> 'id world \<Rightarrow> 'id world" where
  "console_log e w = w\<lparr>console := console w @ [e]\<rparr>"

section \<open>Unread counts\<close>

definition getUnreadCounts :: "'id world \<Rightarrow> ('id \<rightharpoonup> int)" where
  "getUnreadCounts w = unreadCounts w"

definition saveUnreadCounts :: "('id \<rightharpoonup> int) \<Rightarrow> 'id world \<Rightarrow> 'id world" where
  "saveUnreadCounts counts w = w\<lparr>unreadCounts := counts\<rparr>"

text \<open>
  JavaScript numbers are binary64. The counts are whole numbers, and \<open>numAdd\<close> is the
  addition of two of them as binary64 performs it: the exact sum when its magnitude is at
  most \<open>2\<^sup>5\<^sup>3\<close>, and beyond that the nearest whole number a binary64 holds, which is
  a multiple of \<open>spacing\<close>, a tie going to the even multiple. (A magnitude from
  \<open>2\<^sup>1\<^sup>0\<^sup>2\<^sup>4\<close> on, which binary64 holds as \<^verbatim>\<open>Infinity\<close>, is not told apart.)
\<close>

fun spacing :: "nat \<Rightarrow> nat" where
  "spacing 0 = 1"
| "spacing (Suc n) = (if Suc n < 2 ^ 53 then 1 else 2 * spacing (Suc n div 2))"

declare spacing.simps [simp del]

definition roundNat :: "nat \<Rightarrow> nat" where
  "roundNat n =
     (let q = spacing n; r = n mod q; lo = n - r
      in if 2 * r < q then lo
         else if q < 2 * r then lo + q
         else if even (lo div q) then lo else lo + q)"

definition toNumber :: "int \<Rightarrow> int" where
  "toNumber x = (if x < 0 then - int (roundNat (nat (- x))) else int (roundNat (nat x)))"

definition numAdd :: "int \<Rightarrow> int \<Rightarrow> int" where
  "numAdd a b = toNumber (a + b)"

text \<open>\<^verbatim>\<open>counts[contactId] || 0\<close>: an absent key and a stored zero both read as 0.\<close>

definition countOr0 :: "('id \<rightharpoonup> int) \<Rightarrow> 'id \<Rightarrow> int" where
  "countOr0 counts contactId =
     (case counts contactId of None \<Rightarrow> 0 | Some v \<Rightarrow> if v = 0 then 0 else v)"

text \<open>The argument \<open>None\<close> is a call that passes no \<^verbatim>\<open>messageCount\<close>.\<close>

definition incrementUnreadCount :: "'id \<Rightarrow> int option \<Rightarrow> 'id world \<Rightarrow> 'id world" where
  "incrementUnreadCount contactId arg w =
     (let messageCount = (case arg of None \<Rightarrow> 1 | Some n \<Rightarrow> n);
          counts = getUnreadCounts w;
          counts' = counts(contactId \<mapsto> numAdd (countOr0 counts contactId) messageCount)
      in console_log (NewMessages contactId (numAdd (countOr0 counts contactId) messageCount))
           (saveUnreadCounts counts' w))"

definition clearUnreadCount :: "'id \<Rightarrow> 'id world \<Rightarrow> 'id world" where
  "clearUnreadCount contactId w =
     (let counts = getUnreadCounts w
      in if (case counts contactId of None \<Rightarrow> False | Some v \<Rightarrow> v \<noteq> 0)
         then console_log (Cleared contactId) (saveUnreadCounts (counts(contactId := None)) w)
         else w)"

section \<open>The timer\<close>

text \<open>
  \<open>release\<close> is the callback of line 86. \<open>runTimeouts\<close> is the timer of the host:
  when time passes to \<open>t\<close>, the callbacks due by then run. Time passes between the
  runs of the handler, and while the handler awaits the answer of the service.
\<close>

definition release :: "'id \<Rightarrow> 'id world \<Rightarrow> 'id world" where
  "release contactId w = w\<lparr>processing := (processing w)(contactId := None)\<rparr>"

definition runTimeouts :: "int \<Rightarrow> 'id world \<Rightarrow> 'id world" where
  "runTimeouts t w =
     (foldl (\<lambda>v (d, contactId). if d \<le> t then release contactId v else v) w (timeouts w))
       \<lparr>timeouts := filter (\<lambda>(d, contactId). t < d) (timeouts w), clock := max (clock w) t\<rparr>"

section \<open>The call to the completion service\<close>

text \<open>
  \<^verbatim>\<open>callGlobalAiApi\<close>. A string from \<^verbatim>\<open>localStorage.getItem\<close> is falsy when the item
  is absent or empty. Building the request (the system prompt, the last 15 messages, the
  URL) raises nothing and decides only what is sent; the answer is the host's. While the
  request is awaited its time passes on the clock and the callbacks of the timer that
  come due run. \<open>readContent\<close> is
  \<^verbatim>\<open>data.choices[0].message.content\<close>, \<open>errorMessage\<close> is
  \<^verbatim>\<open>err.error?.message || res.statusText\<close>.
\<close>

definition falsy_item :: "jsstring option \<Rightarrow> bool" where
  "falsy_item x = (case x of None \<Rightarrow> True | Some s \<Rightarrow> s = [])"

definition readContent :: "jsval \<Rightarrow> error + jsval" where
  "readContent data =
     (case getProp data (str ''choices'') of
        Inl e \<Rightarrow> Inl e
      | Inr choices \<Rightarrow>
          (case getFirst choices of
             Inl e \<Rightarrow> Inl e
           | Inr choice \<Rightarrow>
               (case getProp choice (str ''message'') of
                  Inl e \<Rightarrow> Inl e
                | Inr msg \<Rightarrow> getProp msg (str ''content''))))"

definition errorMessage :: "'id host \<Rightarrow> jsval \<Rightarrow> jsstring \<Rightarrow> error + jsval" where
  "errorMessage h err statusText =
     (case getProp err (str ''error'') of
        Inl e \<Rightarrow> Inl e
      | Inr er \<Rightarrow>
          (let m = (if nullish er then JUndefined else member er (str ''message''))
           in Inr (if truthy h m then m else JString statusText)))"

definition callGlobalAiApi ::
  "'id host \<Rightarrow> 'id \<Rightarrow> 'id world \<Rightarrow> (error + jsval) \<times> 'id world" where
  "callGlobalAiApi h contactId w =
     (if falsy_item (apiUrl w) \<or> falsy_item (apiKey w)
      then (Inl (Error (JString (str ''API not configured''))), w)
      else (case find (\<lambda>c. contact_id c = contactId) (contacts w) of
              None \<Rightarrow> (Inl ContactNotFound, w)
            | Some charData \<Rightarrow>
                (let (elapsed, res) = fetch h contactId;
                     w' = runTimeouts (clock w + int elapsed) w
                 in (case res of
                       FetchRejects \<Rightarrow> (Inl FetchFailed, w')
                     | FetchResolves ok statusText body \<Rightarrow>
                         (if \<not> ok
                          then (case JSON_parse body of
                                  Inl e \<Rightarrow> (Inl e, w')
                                | Inr err \<Rightarrow>
                                    (case errorMessage h err statusText of
                                       Inl e \<Rightarrow> (Inl e, w')
                                     | Inr m \<Rightarrow> (Inl (Error m), w')))
                          else (case JSON_parse body of
                                  Inl e \<Rightarrow> (Inl e, w')
                                | Inr data \<Rightarrow> (readContent data, w')))))))"

section \<open>Generating the reply\<close>

text \<open>
  The callback of \<^verbatim>\<open>filter\<close>, \<^verbatim>\<open>m => m.trim() !== ""\<close>: only a string has a
  \<^verbatim>\<open>trim\<close> method to call, every other entry raises a TypeError, which ends the
  filtering.
\<close>

definition notBlank :: "jsval \<Rightarrow> error + bool" where
  "notBlank m = (case m of JString s \<Rightarrow> Inr (trim s \<noteq> []) | _ \<Rightarrow> Inl TypeError)"

fun filterReplies :: "jsval list \<Rightarrow> error + jsval list" where
  "filterReplies [] = Inr []"
| "filterReplies (m # ms) =
     (case notBlank m of
        Inl e \<Rightarrow> Inl e
      | Inr keep \<Rightarrow>
          (case filterReplies ms of
             Inl e \<Rightarrow> Inl e
           | Inr r \<Rightarrow> Inr (if keep then m # r else r)))"

text \<open>
  Lines 98 to 110 of \<^verbatim>\<open>triggerGlobalAiReply\<close>: \<open>tryParse\<close> is the \<^verbatim>\<open>try\<close> block,
  giving \<^verbatim>\<open>replyMessages\<close> or the exception raised before it was assigned;
  \<open>parseReplies\<close> adds the \<^verbatim>\<open>catch\<close>, which pushes the raw reply on the still empty
  list.
\<close>

definition tryParse :: "'id host \<Rightarrow> jsval \<Rightarrow> error + jsval list" where
  "tryParse h rawReply =
     (case JSON_parse (ToString h rawReply) of
        Inl e \<Rightarrow> Inl e
      | Inr parsedReply \<Rightarrow>
          (if truthy h parsedReply \<and> isArray (member parsedReply (str ''replies''))
           then (case member parsedReply (str ''replies'') of
                   JArray replies \<Rightarrow> filterReplies replies
                 | _ \<Rightarrow> Inr [])
           else Inr ([] @ [rawReply])))"

definition parseReplies :: "'id host \<Rightarrow> jsval \<Rightarrow> jsval list" where
  "parseReplies h rawReply =
     (case tryParse h rawReply of Inl e \<Rightarrow> [] @ [rawReply] | Inr replyMessages \<Rightarrow> replyMessages)"

definition newMessage :: "int \<Rightarrow> jsval \<Rightarrow> message" where
  "newMessage now c = \<lparr>role = Assistant, content = c, timestamp = now\<rparr>"

definition appendMessages :: "'id \<Rightarrow> jsval list \<Rightarrow> 'id world \<Rightarrow> 'id world" where
  "appendMessages contactId replyMessages w =
     (let allChats = chats w;
          history = (case allChats contactId of None \<Rightarrow> [] | Some msgs \<Rightarrow> msgs);
          newMessages = map (newMessage (clock w)) replyMessages;
          w' = w\<lparr>chats := allChats(contactId \<mapsto> history @ newMessages)\<rparr>
      in incrementUnreadCount contactId (Some (int (length newMessages))) w')"

text \<open>
  \<^verbatim>\<open>triggerGlobalAiReply\<close>: its result is the exception it lets out, and its outer
  \<^verbatim>\<open>catch\<close> lets none out.
\<close>

definition triggerGlobalAiReply ::
  "'id host \<Rightarrow> 'id \<Rightarrow> 'id world \<Rightarrow> (error + unit) \<times> 'id world" where
  "triggerGlobalAiReply h contactId w =
     (case callGlobalAiApi h contactId w of
        (Inl err, w') \<Rightarrow> (Inr (), console_log (ApiCallFailed contactId err) w')
      | (Inr rawReply, w') \<Rightarrow>
          (let replyMessages = parseReplies h rawReply
           in if length replyMessages > 0
              then (Inr (), appendMessages contactId replyMessages w')
              else (Inr (), w')))"

section \<open>The periodic check\<close>

text \<open>
  Lines 59 to 70: whether the loop reaches the guard for a conversation, given the
  settings and transcripts loaded when the tick began and the time read on line 69.
\<close>

definition isDue ::
  "('id \<rightharpoonup> settings) \<Rightarrow> ('id \<rightharpoonup> message list) \<Rightarrow> int \<Rightarrow> 'id \<Rightarrow> bool" where
  "isDue allSettings allChats now contactId =
     (case allSettings contactId of
        None \<Rightarrow> False
      | Some s \<Rightarrow>
          (if proactive s \<noteq> Some True then False
           else (let history = (case allChats contactId of None \<Rightarrow> [] | Some msgs \<Rightarrow> msgs)
                 in if length history = 0 then False
                    else (let lastMsg = history ! (length history - 1)
                          in if role lastMsg \<noteq> User then False
                             else now - timestamp lastMsg > PROACTIVE_REPLY_DELAY))))"

text \<open>
  Lines 74 to 77, the guard: the attempt is refused when the flag holds a non-empty string,
  otherwise the flag is set to \<^verbatim>\<open>'true'\<close>. \<open>setTimeout\<close> registers the callback
  of line 86.
\<close>

definition flagged :: "'id world \<Rightarrow> 'id \<Rightarrow> bool" where
  "flagged w contactId = (\<not> falsy_item (processing w contactId))"

definition tryAdmit :: "'id \<Rightarrow> 'id world \<Rightarrow> bool \<times> 'id world" where
  "tryAdmit contactId w =
     (if flagged w contactId then (False, w)
      else (True, w\<lparr>processing := (processing w)(contactId \<mapsto> str ''true'')\<rparr>))"

definition setTimeout :: "'id \<Rightarrow> int \<Rightarrow> 'id world \<Rightarrow> 'id world" where
  "setTimeout contactId delay w = w\<lparr>timeouts := timeouts w @ [(clock w + delay, contactId)]\<rparr>"

text \<open>
  The body of the loop for one contact, then the loop, then the handler of
  \<^verbatim>\<open>setInterval\<close>. The handler awaits each attempt inside the loop, so the world one
  contact leaves is the world the next contact meets. The callbacks of the timer run
  during the awaits of a run; another run of the handler or a write of another page
  during an await is not part of a run. Writing to the stores is taken to succeed.
\<close>

definition processContact ::
  "'id host \<Rightarrow> ('id \<rightharpoonup> settings) \<Rightarrow> ('id \<rightharpoonup> message list) \<Rightarrow> 'id contact \<Rightarrow> 'id world
     \<Rightarrow> 'id world" where
  "processContact h allSettings allChats c w =
     (let contactId = contact_id c
      in if \<not> isDue allSettings allChats (clock w) contactId then w
         else (case tryAdmit contactId w of
                 (False, _) \<Rightarrow> w
               | (True, w1) \<Rightarrow>
                   (let w2 = console_log (Triggering contactId) w1;
                        (r, w3) = triggerGlobalAiReply h contactId w2;
                        w4 = (case r of
                                Inl e \<Rightarrow> console_log (ErrorDuring contactId e) w3
                              | Inr _ \<Rightarrow> w3)
                    in setTimeout contactId 60000 w4)))"

fun scan ::
  "'id host \<Rightarrow> ('id \<rightharpoonup> settings) \<Rightarrow> ('id \<rightharpoonup> message list) \<Rightarrow> 'id contact list \<Rightarrow> 'id world
     \<Rightarrow> 'id world" where
  "scan h allSettings allChats [] w = w"
| "scan h allSettings allChats (c # cs) w =
     scan h allSettings allChats cs (processContact h allSettings allChats c w)"

definition tick :: "'id host \<Rightarrow> 'id world \<Rightarrow> 'id world" where
  "tick h w =
     (if hidden w then w
      else scan h (chatSettings w) (chats w) (contacts w) w)"

section \<open>Notions the properties are stated with\<close>

text \<open>
  The time a call to the service takes: none when it stops at the configuration or at the
  contact lookup, which come before the request.
\<close>

definition callDuration :: "'id host \<Rightarrow> 'id \<Rightarrow> 'id world \<Rightarrow> nat" where
  "callDuration h contactId w =
     (if falsy_item (apiUrl w) \<or> falsy_item (apiKey w) then 0
      else (case find (\<lambda>c. contact_id c = contactId) (contacts w) of
              None \<Rightarrow> 0
            | Some charData \<Rightarrow> fst (fetch h contactId)))"

text \<open>The world in which a call to the service returns or raises.\<close>

definition awaited :: "'id host \<Rightarrow> 'id \<Rightarrow> 'id world \<Rightarrow> 'id world" where
  "awaited h contactId w = snd (callGlobalAiApi h contactId w)"


definition callSize :: "int option \<Rightarrow> int" where
  "callSize a = (case a of None \<Rightarrow> 1 | Some n \<Rightarrow> n)"


text \<open>
  The ledger as the worker keeps it: every stored count is positive. Increments of size
  at least 1 and clearing keep it so.
\<close>

definition positiveLedger :: "'id world \<Rightarrow> bool" where
  "positiveLedger w = (\<forall>c v. unreadCounts w c = Some v \<longrightarrow> 0 < v)"

text \<open>
  The state of the guard that the worker keeps to: no conversation has two callbacks
  pending, and a conversation with a callback pending has its flag set. It holds when
  nothing is pending, and the tick and the timer keep it.
\<close>

definition pendingFlagged :: "'id world \<Rightarrow> bool" where
  "pendingFlagged w =
     (distinct (map snd (timeouts w)) \<and> (\<forall>c \<in> snd ` set (timeouts w). flagged w c))"

text \<open>
  The states the guard can be in: a session begins with no flag and no callback, and
  from there ticks run, time passes, and the pages write to the stores, which leaves
  flags and callbacks alone.
\<close>

inductive reachable :: "'id world \<Rightarrow> bool" where
  session: "processing w = Map.empty \<Longrightarrow> timeouts w = [] \<Longrightarrow> reachable w"
| ticked: "reachable w \<Longrightarrow> reachable (tick h w)"
| timed: "reachable w \<Longrightarrow> reachable (runTimeouts t w)"
| stored: "reachable w \<Longrightarrow> processing v = processing w \<Longrightarrow> timeouts v = timeouts w
     \<Longrightarrow> reachable v"

text \<open>
  A call reaches the service when the endpoint and the key are set and the contact is
  found.
\<close>

definition reachesService :: "'id world \<Rightarrow> 'id \<Rightarrow> bool" where
  "reachesService w contactId =
     (\<not> falsy_item (apiUrl w) \<and> \<not> falsy_item (apiKey w) \<and>
      find (\<lambda>c. contact_id c = contactId) (contacts w) \<noteq> None)"

text \<open>Strings among values, and the blank ones: empty or white space only.\<close>

definition isString :: "jsval \<Rightarrow> bool" where
  "isString v = (case v of JString s \<Rightarrow> True | _ \<Rightarrow> False)"

definition blank :: "jsval \<Rightarrow> bool" where
  "blank v = (case v of JString s \<Rightarrow> trim s = [] | _ \<Rightarrow> False)"

text \<open>
  Reply parsing as the specification words it, for comparison with \<open>parseReplies\<close>:
  when the raw text parses to an object whose \<^verbatim>\<open>replies\<close> field is an array, the
  entries of the array without the blank ones; otherwise the raw text alone.
\<close>

definition spec_parseReplies :: "jsstring \<Rightarrow> jsval list" where
  "spec_parseReplies raw =
     (case JSON_parse raw of
        Inl e \<Rightarrow> [JString raw]
      | Inr v \<Rightarrow>
          (case member v (str ''replies'') of
             JArray entries \<Rightarrow> filter (\<lambda>m. \<not> blank m) entries
           | _ \<Rightarrow> [JString raw]))"

section \<open>Example inputs\<close>

text \<open>
  \<open>jsonQuote\<close> writes a text without control characters as a JSON string, \<open>successBody\<close>
  is a success body of the service carrying it as the reply.
\<close>

definition jsonQuote :: "jsstring \<Rightarrow> jsstring" where
  "jsonQuote s =
     0x22 # concat (map (\<lambda>c. if c = 0x22 \<or> c = 0x5C then [0x5C, c] else [c]) s) @ [0x22]"

definition successBody :: "jsstring \<Rightarrow> jsstring" where
  "successBody reply =
     str ''{\"choices\":[{\"message\":{\"role\":\"assistant\",\"content\":'' @ jsonQuote reply
       @ str ''}}]}''"

definition exHost :: "nat host" where
  "exHost =
     \<lparr>fetch = (\<lambda>c.
        if c = 10
        then (1000, FetchResolves True (str ''OK'')
                (successBody (str ''{\"replies\":[\"hi\",\"you there?\"]}'')))
        else if c = 20
        then (500, FetchResolves True (str ''OK'') (successBody (str ''Still there?'')))
        else if c = 30
        then (250, FetchResolves False (str ''Too Many Requests'')
                (str ''{\"error\":{\"message\":\"slow down\"}}''))
        else if c = 40
        then (30, FetchResolves True (str ''OK'') (str ''{\"choices\":[{\"message\":{}}]}''))
        else if c = 50
        then (40, FetchResolves True (str ''OK'') (successBody (str ''{\"replies\":[\"A\",1]}'')))
        else (7, FetchRejects)),
      numberIsZero = (\<lambda>n. False), numberToString = (\<lambda>n. n)\<rparr>"

definition exContact :: "nat \<Rightarrow> nat contact" where
  "exContact n =
     \<lparr>contact_id = n, contact_name = str ''Ann'', contact_persona = [], contact_note = []\<rparr>"

definition userMsg :: "int \<Rightarrow> message" where
  "userMsg t = \<lparr>role = User, content = JString (str ''hello''), timestamp = t\<rparr>"

definition exSettings :: "nat \<rightharpoonup> settings" where
  "exSettings =
     [10 \<mapsto> \<lparr>proactive = Some True\<rparr>, 20 \<mapsto> \<lparr>proactive = Some True\<rparr>,
      30 \<mapsto> \<lparr>proactive = Some True\<rparr>, 40 \<mapsto> \<lparr>proactive = Some True\<rparr>]"

definition exChats :: "nat \<rightharpoonup> message list" where
  "exChats =
     [10 \<mapsto> [userMsg 1000], 20 \<mapsto> [userMsg 2000], 30 \<mapsto> [userMsg 3000],
      40 \<mapsto> [userMsg 4000]]"

definition exWorld :: "nat world" where
  "exWorld =
     \<lparr>hidden = False, chatSettings = exSettings, contacts = [exContact 10, exContact 20],
      chats = exChats, unreadCounts = [10 \<mapsto> 2],
      apiUrl = Some (str ''https://api.example/v1''), apiKey = Some (str ''secret''),
      processing = Map.empty, timeouts = [], clock = 400000, console = []\<rparr>"

definition exWorld2 :: "nat world" where
  "exWorld2 = exWorld\<lparr>contacts := [exContact 30, exContact 40, exContact 50, exContact 20]\<rparr>"

text \<open>
  The example world in the cooldown of conversation 20: its flag is set and the callback
  that removes it is due 500 ms from now.
\<close>

definition exWorld3 :: "nat world" where
  "exWorld3 = exWorld\<lparr>processing := [20 \<mapsto> str ''true''], timeouts := [(400500, 20)]\<rparr>"


section \<open>Properties\<close>

subsection \<open>Facts about the timer\<close>

lemma release_fields:
  "processing (release c v) = (processing v)(c := None)"
  "timeouts (release c v) = timeouts v"
  "clock (release c v) = clock v"
  "chats (release c v) = chats v"
  "unreadCounts (release c v) = unreadCounts v"
  "console (release c v) = console v"
  "hidden (release c v) = hidden v"
  "contacts (release c v) = contacts v"
  "apiUrl (release c v) = apiUrl v"
  "apiKey (release c v) = apiKey v"
  by (simp_all add: release_def)

lemma foldl_release_processing:
  "processing (foldl (\<lambda>v (d, c). if d \<le> t then release c v else v) v ts) c =
     (if \<exists>d. (d, c) \<in> set ts \<and> d \<le> t then None else processing v c)"
proof (induction ts arbitrary: v)
  case Nil
  show ?case by simp
next
  case (Cons p ps)
  obtain d' c' where p: "p = (d', c')" by (cases p)
  show ?case
    by (auto simp: p Cons.IH release_fields)
qed

lemma foldl_release_frame:
  "chats (foldl (\<lambda>v (d, c). if d \<le> t then release c v else v) v ts) = chats v \<and>
   unreadCounts (foldl (\<lambda>v (d, c). if d \<le> t then release c v else v) v ts) = unreadCounts v \<and>
   console (foldl (\<lambda>v (d, c). if d \<le> t then release c v else v) v ts) = console v \<and>
   hidden (foldl (\<lambda>v (d, c). if d \<le> t then release c v else v) v ts) = hidden v \<and>
   contacts (foldl (\<lambda>v (d, c). if d \<le> t then release c v else v) v ts) = contacts v \<and>
   apiUrl (foldl (\<lambda>v (d, c). if d \<le> t then release c v else v) v ts) = apiUrl v \<and>
   apiKey (foldl (\<lambda>v (d, c). if d \<le> t then release c v else v) v ts) = apiKey v"
proof (induction ts arbitrary: v)
  case Nil
  show ?case by simp
next
  case (Cons p ps)
  obtain d' c' where p: "p = (d', c')" by (cases p)
  show ?case
    by (simp add: p Cons.IH release_fields)
qed

lemma runTimeouts_frame:
  "chats (runTimeouts t w) = chats w"
  "unreadCounts (runTimeouts t w) = unreadCounts w"
  "console (runTimeouts t w) = console w"
  "hidden (runTimeouts t w) = hidden w"
  "contacts (runTimeouts t w) = contacts w"
  "apiUrl (runTimeouts t w) = apiUrl w"
  "apiKey (runTimeouts t w) = apiKey w"
  "clock (runTimeouts t w) = max (clock w) t"
  "timeouts (runTimeouts t w) = filter (\<lambda>(d, c). t < d) (timeouts w)"
  by (simp_all add: runTimeouts_def foldl_release_frame)

lemma runTimeouts_processing:
  "processing (runTimeouts t w) c =
     (if \<exists>d. (d, c) \<in> set (timeouts w) \<and> d \<le> t then None else processing w c)"
  by (simp add: runTimeouts_def foldl_release_processing)

lemma flagged_runTimeouts:
  "flagged (runTimeouts t w) c \<longleftrightarrow>
     flagged w c \<and> \<not> (\<exists>d. (d, c) \<in> set (timeouts w) \<and> d \<le> t)"
  by (simp add: flagged_def runTimeouts_processing falsy_item_def)

subsection \<open>Facts about the call and the generation\<close>

lemma reachesService_duration:
  "callDuration h c w = (if reachesService w c then fst (fetch h c) else 0)"
  by (auto simp: callDuration_def reachesService_def split: option.splits)

lemma awaited_eq:
  "awaited h c w =
     (if reachesService w c then runTimeouts (clock w + int (fst (fetch h c))) w else w)"
  by (auto simp: awaited_def callGlobalAiApi_def reachesService_def Let_def
      split: option.splits prod.splits fetch_result.splits sum.splits)

lemma awaited_frame:
  "chats (awaited h c w) = chats w"
  "unreadCounts (awaited h c w) = unreadCounts w"
  "console (awaited h c w) = console w"
  "hidden (awaited h c w) = hidden w"
  "contacts (awaited h c w) = contacts w"
  "apiUrl (awaited h c w) = apiUrl w"
  "apiKey (awaited h c w) = apiKey w"
  "clock (awaited h c w) = clock w + int (callDuration h c w)"
  by (simp_all add: awaited_eq runTimeouts_frame reachesService_duration)

lemma awaited_timeouts:
  "timeouts (awaited h c w) =
     (if reachesService w c
      then filter (\<lambda>(d, c'). clock w + int (callDuration h c w) < d) (timeouts w)
      else timeouts w)"
  by (simp add: awaited_eq runTimeouts_frame reachesService_duration)

lemma flagged_awaited:
  "flagged (awaited h c w) c' \<longleftrightarrow>
     flagged w c' \<and>
     \<not> (reachesService w c \<and>
        (\<exists>d. (d, c') \<in> set (timeouts w) \<and> d \<le> clock w + int (callDuration h c w)))"
  by (simp add: awaited_eq flagged_runTimeouts reachesService_duration)

lemma trigger_fst: "fst (triggerGlobalAiReply h c w) = Inr ()"
  by (auto simp: triggerGlobalAiReply_def Let_def split: prod.splits sum.splits)

lemma trigger_on_failure:
  assumes "fst (callGlobalAiApi h c w) = Inl e"
  shows "snd (triggerGlobalAiReply h c w) = console_log (ApiCallFailed c e) (awaited h c w)"
proof -
  obtain r w' where cw: "callGlobalAiApi h c w = (r, w')" by (cases "callGlobalAiApi h c w")
  from assms cw have r: "r = Inl e" by simp
  show ?thesis
    by (simp add: triggerGlobalAiReply_def cw r awaited_def)
qed

lemma trigger_on_success:
  assumes "fst (callGlobalAiApi h c w) = Inr rawReply"
  shows "snd (triggerGlobalAiReply h c w) =
     (if parseReplies h rawReply \<noteq> []
      then appendMessages c (parseReplies h rawReply) (awaited h c w)
      else awaited h c w)"
proof -
  obtain r w' where cw: "callGlobalAiApi h c w = (r, w')" by (cases "callGlobalAiApi h c w")
  from assms cw have r: "r = Inr rawReply" by simp
  show ?thesis
    by (simp add: triggerGlobalAiReply_def cw r awaited_def Let_def)
qed

lemma append_frame:
  "processing (appendMessages c ms w) = processing w"
  "timeouts (appendMessages c ms w) = timeouts w"
  "clock (appendMessages c ms w) = clock w"
  "hidden (appendMessages c ms w) = hidden w"
  "contacts (appendMessages c ms w) = contacts w"
  "apiUrl (appendMessages c ms w) = apiUrl w"
  "apiKey (appendMessages c ms w) = apiKey w"
  "console (appendMessages c ms w) =
     console w @ [NewMessages c (numAdd (countOr0 (unreadCounts w) c) (int (length ms)))]"
  by (simp_all add: appendMessages_def incrementUnreadCount_def Let_def getUnreadCounts_def
      saveUnreadCounts_def console_log_def)

lemma trigger_frame:
  "processing (snd (triggerGlobalAiReply h c w)) = processing (awaited h c w)"
  "timeouts (snd (triggerGlobalAiReply h c w)) = timeouts (awaited h c w)"
  "clock (snd (triggerGlobalAiReply h c w)) = clock w + int (callDuration h c w)"
  "hidden (snd (triggerGlobalAiReply h c w)) = hidden w"
  "contacts (snd (triggerGlobalAiReply h c w)) = contacts w"
  "apiUrl (snd (triggerGlobalAiReply h c w)) = apiUrl w"
  "apiKey (snd (triggerGlobalAiReply h c w)) = apiKey w"
proof -
  show "processing (snd (triggerGlobalAiReply h c w)) = processing (awaited h c w)"
    by (cases "fst (callGlobalAiApi h c w)")
      (simp_all add: trigger_on_failure trigger_on_success append_frame console_log_def)
  show "timeouts (snd (triggerGlobalAiReply h c w)) = timeouts (awaited h c w)"
    by (cases "fst (callGlobalAiApi h c w)")
      (simp_all add: trigger_on_failure trigger_on_success append_frame console_log_def)
  show "clock (snd (triggerGlobalAiReply h c w)) = clock w + int (callDuration h c w)"
    by (cases "fst (callGlobalAiApi h c w)")
      (simp_all add: trigger_on_failure trigger_on_success append_frame console_log_def
        awaited_frame)
  show "hidden (snd (triggerGlobalAiReply h c w)) = hidden w"
    by (cases "fst (callGlobalAiApi h c w)")
      (simp_all add: trigger_on_failure trigger_on_success append_frame console_log_def
        awaited_frame)
  show "contacts (snd (triggerGlobalAiReply h c w)) = contacts w"
    by (cases "fst (callGlobalAiApi h c w)")
      (simp_all add: trigger_on_failure trigger_on_success append_frame console_log_def
        awaited_frame)
  show "apiUrl (snd (triggerGlobalAiReply h c w)) = apiUrl w"
    by (cases "fst (callGlobalAiApi h c w)")
      (simp_all add: trigger_on_failure trigger_on_success append_frame console_log_def
        awaited_frame)
  show "apiKey (snd (triggerGlobalAiReply h c w)) = apiKey w"
    by (cases "fst (callGlobalAiApi h c w)")
      (simp_all add: trigger_on_failure trigger_on_success append_frame console_log_def
        awaited_frame)
qed

lemma trigger_console_no_trigger:
  "\<exists>es. console (snd (triggerGlobalAiReply h c w)) = console w @ es \<and>
        (\<forall>c'. Triggering c' \<notin> set es)"
  by (cases "fst (callGlobalAiApi h c w)")
    (simp_all add: trigger_on_failure trigger_on_success append_frame console_log_def
      awaited_frame)

subsection \<open>Facts about the loop\<close>

lemma flagged_true: "str ''true'' \<noteq> []"
  by (simp add: str_def)

lemma tryAdmit_unflagged:
  "\<not> flagged w c \<Longrightarrow>
     tryAdmit c w = (True, w\<lparr>processing := (processing w)(c \<mapsto> str ''true'')\<rparr>)"
  by (simp add: tryAdmit_def)

lemma tryAdmit_flagged: "flagged w c \<Longrightarrow> tryAdmit c w = (False, w)"
  by (simp add: tryAdmit_def)

lemma flagged_tryAdmit: "flagged (snd (tryAdmit c w)) c' \<longleftrightarrow> flagged w c' \<or> c' = c"
  by (auto simp: tryAdmit_def flagged_def falsy_item_def flagged_true)

lemma processContact_admitted:
  assumes "isDue S C (clock w) (contact_id k)" and "\<not> flagged w (contact_id k)"
  shows "processContact h S C k w =
           setTimeout (contact_id k) 60000
             (snd (triggerGlobalAiReply h (contact_id k)
                (console_log (Triggering (contact_id k)) (snd (tryAdmit (contact_id k) w)))))"
proof -
  let ?w2 = "console_log (Triggering (contact_id k))
     (w\<lparr>processing := (processing w)(contact_id k \<mapsto> str ''true'')\<rparr>)"
  obtain r w3 where t: "triggerGlobalAiReply h (contact_id k) ?w2 = (r, w3)"
    by (cases "triggerGlobalAiReply h (contact_id k) ?w2")
  have r: "r = Inr ()" using trigger_fst [of h "contact_id k" ?w2] by (simp add: t)
  show ?thesis
    using assms by (simp add: processContact_def tryAdmit_def Let_def t r)
qed

lemma processContact_flagged:
  "flagged w (contact_id k) \<Longrightarrow> processContact h S C k w = w"
  by (simp add: processContact_def tryAdmit_def Let_def)

lemma processContact_not_due:
  "\<not> isDue S C (clock w) (contact_id k) \<Longrightarrow> processContact h S C k w = w"
  by (simp add: processContact_def)

lemma processContact_skip:
  "\<not> (isDue S C (clock w) (contact_id k) \<and> \<not> flagged w (contact_id k)) \<Longrightarrow>
     processContact h S C k w = w"
  by (auto simp: processContact_flagged processContact_not_due)

text \<open>The world when the attempt for an admitted contact has just begun.\<close>

lemma started_fields:
  "clock (console_log (Triggering c) (snd (tryAdmit c w))) = clock w"
  "timeouts (console_log (Triggering c) (snd (tryAdmit c w))) = timeouts w"
  "contacts (console_log (Triggering c) (snd (tryAdmit c w))) = contacts w"
  "apiUrl (console_log (Triggering c) (snd (tryAdmit c w))) = apiUrl w"
  "apiKey (console_log (Triggering c) (snd (tryAdmit c w))) = apiKey w"
  "chats (console_log (Triggering c) (snd (tryAdmit c w))) = chats w"
  "unreadCounts (console_log (Triggering c) (snd (tryAdmit c w))) = unreadCounts w"
  "hidden (console_log (Triggering c) (snd (tryAdmit c w))) = hidden w"
  "console (console_log (Triggering c) (snd (tryAdmit c w))) = console w @ [Triggering c]"
  by (simp_all add: console_log_def tryAdmit_def)

lemma started_flagged:
  "flagged (console_log (Triggering c) (snd (tryAdmit c w))) c' \<longleftrightarrow> flagged w c' \<or> c' = c"
  using flagged_tryAdmit [of c w c'] by (simp add: console_log_def flagged_def)

lemma started_reaches:
  "reachesService (console_log (Triggering c) (snd (tryAdmit c w))) c' = reachesService w c'"
  by (simp add: reachesService_def started_fields)

lemma started_duration:
  "callDuration h c' (console_log (Triggering c) (snd (tryAdmit c w))) = callDuration h c' w"
  by (simp add: reachesService_duration started_reaches)

lemma processContact_clock:
  "clock (processContact h S C k w) =
     clock w + (if isDue S C (clock w) (contact_id k) \<and> \<not> flagged w (contact_id k)
                then int (callDuration h (contact_id k) w) else 0)"
proof (cases "isDue S C (clock w) (contact_id k) \<and> \<not> flagged w (contact_id k)")
  case True
  then show ?thesis
    by (simp add: processContact_admitted setTimeout_def trigger_frame started_fields
        started_duration)
next
  case False
  then have "processContact h S C k w = w" by (rule processContact_skip)
  with False show ?thesis by auto
qed

lemma processContact_config:
  "contacts (processContact h S C k w) = contacts w"
  "apiUrl (processContact h S C k w) = apiUrl w"
  "apiKey (processContact h S C k w) = apiKey w"
  "hidden (processContact h S C k w) = hidden w"
proof -
  have "contacts (processContact h S C k w) = contacts w \<and>
      apiUrl (processContact h S C k w) = apiUrl w \<and>
      apiKey (processContact h S C k w) = apiKey w \<and>
      hidden (processContact h S C k w) = hidden w"
  proof (cases "isDue S C (clock w) (contact_id k) \<and> \<not> flagged w (contact_id k)")
    case True
    then show ?thesis
      by (simp add: processContact_admitted setTimeout_def trigger_frame started_fields)
  next
    case False
    then show ?thesis by (simp add: processContact_skip)
  qed
  then show "contacts (processContact h S C k w) = contacts w"
    and "apiUrl (processContact h S C k w) = apiUrl w"
    and "apiKey (processContact h S C k w) = apiKey w"
    and "hidden (processContact h S C k w) = hidden w"
    by simp_all
qed

lemma processContact_timeouts:
  assumes "isDue S C (clock w) (contact_id k)" and "\<not> flagged w (contact_id k)"
  shows "timeouts (processContact h S C k w) =
     (if reachesService w (contact_id k)
      then filter (\<lambda>(d, c). clock (processContact h S C k w) < d) (timeouts w)
      else timeouts w) @ [(clock (processContact h S C k w) + 60000, contact_id k)]"
  using assms
  by (simp add: processContact_clock)
     (simp add: processContact_admitted setTimeout_def trigger_frame awaited_timeouts
        awaited_frame started_fields started_reaches started_duration)

lemma processContact_flagged_iff:
  assumes "isDue S C (clock w) (contact_id k)" and "\<not> flagged w (contact_id k)"
  shows "flagged (processContact h S C k w) c \<longleftrightarrow>
     (flagged w c \<or> c = contact_id k) \<and>
     \<not> (reachesService w (contact_id k) \<and>
        (\<exists>d. (d, c) \<in> set (timeouts w) \<and> d \<le> clock (processContact h S C k w)))"
proof -
  let ?w2 = "console_log (Triggering (contact_id k)) (snd (tryAdmit (contact_id k) w))"
  have "flagged (processContact h S C k w) c \<longleftrightarrow> flagged (awaited h (contact_id k) ?w2) c"
    by (simp add: processContact_admitted [OF assms] setTimeout_def flagged_def trigger_frame)
  also have "\<dots> \<longleftrightarrow> (flagged w c \<or> c = contact_id k) \<and>
     \<not> (reachesService w (contact_id k) \<and>
        (\<exists>d. (d, c) \<in> set (timeouts w) \<and> d \<le> clock w + int (callDuration h (contact_id k) w)))"
    by (simp add: flagged_awaited started_flagged started_fields started_reaches
        started_duration)
  finally show ?thesis
    using assms by (simp add: processContact_clock)
qed

lemma processContact_console:
  "count_list (console (processContact h S C k w)) (Triggering c) =
     count_list (console w) (Triggering c)
       + (if contact_id k = c \<and> isDue S C (clock w) c \<and> \<not> flagged w c then 1 else 0)"
proof (cases "isDue S C (clock w) (contact_id k) \<and> \<not> flagged w (contact_id k)")
  case True
  let ?w2 = "console_log (Triggering (contact_id k)) (snd (tryAdmit (contact_id k) w))"
  obtain es where es: "console (snd (triggerGlobalAiReply h (contact_id k) ?w2)) = console ?w2 @ es"
      "\<forall>c'. Triggering c' \<notin> set es"
    using trigger_console_no_trigger [of h "contact_id k" ?w2] by blast
  from es(2) have "count_list es (Triggering c) = 0"
    by (simp add: count_list_0_iff)
  with True es(1) show ?thesis
    by (auto simp: processContact_admitted setTimeout_def started_fields)
next
  case False
  then have "processContact h S C k w = w" by (rule processContact_skip)
  with False show ?thesis by auto
qed

lemma scan_append:
  "scan h S C (xs @ ys) w = scan h S C ys (scan h S C xs w)"
  by (induction xs arbitrary: w) simp_all

lemma scan_config:
  "contacts (scan h S C ks w) = contacts w \<and> apiUrl (scan h S C ks w) = apiUrl w \<and>
   apiKey (scan h S C ks w) = apiKey w \<and> hidden (scan h S C ks w) = hidden w"
  by (induction ks arbitrary: w) (simp_all add: processContact_config)

lemma processContact_clock_mono: "clock w \<le> clock (processContact h S C k w)"
  by (simp add: processContact_clock)

lemma scan_clock_mono: "clock w \<le> clock (scan h S C ks w)"
proof (induction ks arbitrary: w)
  case Nil
  show ?case by simp
next
  case (Cons k ks)
  have "clock w \<le> clock (processContact h S C k w)" by (rule processContact_clock_mono)
  also have "\<dots> \<le> clock (scan h S C ks (processContact h S C k w))" by (rule Cons.IH)
  finally show ?case by simp
qed

lemma scan_console_mono:
  "count_list (console w) (Triggering c) \<le> count_list (console (scan h S C ks w)) (Triggering c)"
proof (induction ks arbitrary: w)
  case Nil
  show ?case by simp
next
  case (Cons k ks)
  have "count_list (console w) (Triggering c)
      \<le> count_list (console (processContact h S C k w)) (Triggering c)"
    by (simp add: processContact_console)
  also have "\<dots> \<le> count_list (console (scan h S C ks (processContact h S C k w))) (Triggering c)"
    by (rule Cons.IH)
  finally show ?case by simp
qed

lemma scan_announced_iff:
  "count_list (console w) (Triggering c) < count_list (console (scan h S C ks w)) (Triggering c)
   \<longleftrightarrow>
   (\<exists>xs k ys. ks = xs @ k # ys \<and> contact_id k = c \<and>
      isDue S C (clock (scan h S C xs w)) c \<and> \<not> flagged (scan h S C xs w) c)"
proof (induction ks arbitrary: w)
  case Nil
  show ?case by simp
next
  case (Cons k0 ks)
  let ?w1 = "processContact h S C k0 w"
  let ?now = "contact_id k0 = c \<and> isDue S C (clock w) c \<and> \<not> flagged w c"
  let ?later = "\<exists>xs k ys. ks = xs @ k # ys \<and> contact_id k = c \<and>
      isDue S C (clock (scan h S C xs ?w1)) c \<and> \<not> flagged (scan h S C xs ?w1) c"
  have step: "count_list (console ?w1) (Triggering c) =
      count_list (console w) (Triggering c) + (if ?now then 1 else 0)"
    by (rule processContact_console)
  have mono: "count_list (console ?w1) (Triggering c)
      \<le> count_list (console (scan h S C ks ?w1)) (Triggering c)"
    by (rule scan_console_mono)
  have ih: "count_list (console ?w1) (Triggering c)
      < count_list (console (scan h S C ks ?w1)) (Triggering c) \<longleftrightarrow> ?later"
    by (rule Cons.IH)
  have lhs: "count_list (console w) (Triggering c)
      < count_list (console (scan h S C (k0 # ks) w)) (Triggering c) \<longleftrightarrow> ?now \<or> ?later"
    using step mono ih by (cases ?now) auto
  have rhs: "(\<exists>xs k ys. k0 # ks = xs @ k # ys \<and> contact_id k = c \<and>
      isDue S C (clock (scan h S C xs w)) c \<and> \<not> flagged (scan h S C xs w) c)
      \<longleftrightarrow> ?now \<or> ?later"
  proof
    assume "\<exists>xs k ys. k0 # ks = xs @ k # ys \<and> contact_id k = c \<and>
      isDue S C (clock (scan h S C xs w)) c \<and> \<not> flagged (scan h S C xs w) c"
    then obtain xs k ys where d: "k0 # ks = xs @ k # ys" "contact_id k = c"
        "isDue S C (clock (scan h S C xs w)) c" "\<not> flagged (scan h S C xs w) c"
      by blast
    show "?now \<or> ?later"
    proof (cases xs)
      case Nil
      with d show ?thesis by simp
    next
      case (Cons x xs')
      with d have "ks = xs' @ k # ys" and "x = k0" by simp_all
      with d Cons have ?later by auto
      then show ?thesis ..
    qed
  next
    assume "?now \<or> ?later"
    then show "\<exists>xs k ys. k0 # ks = xs @ k # ys \<and> contact_id k = c \<and>
      isDue S C (clock (scan h S C xs w)) c \<and> \<not> flagged (scan h S C xs w) c"
    proof
      assume ?now
      then have "k0 # ks = [] @ k0 # ks \<and> contact_id k0 = c \<and>
          isDue S C (clock (scan h S C [] w)) c \<and> \<not> flagged (scan h S C [] w) c"
        by simp
      then show ?thesis by blast
    next
      assume ?later
      then obtain xs k ys where d: "ks = xs @ k # ys" "contact_id k = c"
          "isDue S C (clock (scan h S C xs ?w1)) c" "\<not> flagged (scan h S C xs ?w1) c"
        by blast
      then have "k0 # ks = (k0 # xs) @ k # ys \<and> contact_id k = c \<and>
          isDue S C (clock (scan h S C (k0 # xs) w)) c \<and> \<not> flagged (scan h S C (k0 # xs) w) c"
        by simp
      then show ?thesis by blast
    qed
  qed
  show ?case using lhs rhs by simp
qed

lemma tick_visible:
  "\<not> hidden w \<Longrightarrow> tick h w = scan h (chatSettings w) (chats w) (contacts w) w"
  by (simp add: tick_def)

lemma tick_at_contact:
  "\<not> hidden w \<Longrightarrow> contacts w = xs @ k # ys \<Longrightarrow>
     tick h w =
       scan h (chatSettings w) (chats w) ys
         (processContact h (chatSettings w) (chats w) k
            (scan h (chatSettings w) (chats w) xs w))"
  by (simp add: tick_def scan_append)

lemma processContact_triggering:
  assumes "isDue S C (clock w) (contact_id k)" and "\<not> flagged w (contact_id k)"
  shows "Triggering (contact_id k) \<in> set (console (processContact h S C k w))"
proof -
  have "count_list (console (processContact h S C k w)) (Triggering (contact_id k)) =
      count_list (console w) (Triggering (contact_id k)) + 1"
    using assms by (simp add: processContact_console)
  then have "count_list (console (processContact h S C k w)) (Triggering (contact_id k)) \<noteq> 0"
    by simp
  then show ?thesis by (simp add: count_list_0_iff)
qed

subsection \<open>When a conversation is due\<close>

lemma isDue_iff:
  "isDue allSettings allChats now contactId \<longleftrightarrow>
     (\<exists>s. allSettings contactId = Some s \<and> proactive s = Some True) \<and>
     (\<exists>history. allChats contactId = Some history \<and> history \<noteq> [] \<and>
        role (last history) = User \<and> now - timestamp (last history) > 300000)"
  by (auto simp: isDue_def PROACTIVE_REPLY_DELAY_def last_conv_nth Let_def
           split: option.splits)

text \<open>
  Claim C1. A visible tick takes the listed contacts in order, each in the world the
  contacts before it have left, and applies the test to each: the loop reaches the guard
  for a conversation exactly when its settings exist with \<^verbatim>\<open>proactive\<close> true, its
  transcript as loaded is not empty, the last message's role is \<^verbatim>\<open>user\<close>, and the
  time read minus the last message's timestamp is strictly greater than 300000 ms. When
  the difference is exactly 300000 the conversation is not due. A conversation that is
  not due is passed over with nothing changed; one that is due and not flagged has its
  attempt announced on the console; and a visible tick announces an attempt for a
  conversation exactly when a listed contact with its id is due and not flagged at its
  turn.
\<close>

theorem due_iff_enabled_human_last_idle:
  "(isDue allSettings allChats now contactId \<longleftrightarrow>
      (\<exists>s. allSettings contactId = Some s \<and> proactive s = Some True) \<and>
      (\<exists>history. allChats contactId = Some history \<and> history \<noteq> [] \<and>
         role (last history) = User \<and> now - timestamp (last history) > 300000)) \<and>
   (\<forall>history. allChats contactId = Some history \<and> history \<noteq> [] \<and>
        now - timestamp (last history) = 300000
      \<longrightarrow> \<not> isDue allSettings allChats now contactId) \<and>
   (\<not> isDue allSettings allChats (clock w) (contact_id k)
      \<longrightarrow> processContact h allSettings allChats k w = w) \<and>
   (isDue allSettings allChats (clock w) (contact_id k) \<and> \<not> flagged w (contact_id k)
      \<longrightarrow> Triggering (contact_id k) \<in> set (console (processContact h allSettings allChats k w))) \<and>
   (\<not> hidden w \<and> contacts w = xs @ k # ys \<longrightarrow>
      tick h w =
        scan h (chatSettings w) (chats w) ys
          (processContact h (chatSettings w) (chats w) k
             (scan h (chatSettings w) (chats w) xs w))) \<and>
   scan h allSettings allChats [] w = w \<and>
   (\<not> hidden w \<longrightarrow>
      (count_list (console w) (Triggering contactId)
         < count_list (console (tick h w)) (Triggering contactId)
       \<longleftrightarrow>
       (\<exists>xs k ys. contacts w = xs @ k # ys \<and> contact_id k = contactId \<and>
          isDue (chatSettings w) (chats w)
            (clock (scan h (chatSettings w) (chats w) xs w)) contactId \<and>
          \<not> flagged (scan h (chatSettings w) (chats w) xs w) contactId)))"
proof (intro conjI allI impI)
  show "isDue allSettings allChats now contactId \<longleftrightarrow>
      (\<exists>s. allSettings contactId = Some s \<and> proactive s = Some True) \<and>
      (\<exists>history. allChats contactId = Some history \<and> history \<noteq> [] \<and>
         role (last history) = User \<and> now - timestamp (last history) > 300000)"
    by (rule isDue_iff)
next
  fix history
  assume "allChats contactId = Some history \<and> history \<noteq> [] \<and>
        now - timestamp (last history) = 300000"
  then show "\<not> isDue allSettings allChats now contactId"
    by (auto simp: isDue_iff)
next
  assume "\<not> isDue allSettings allChats (clock w) (contact_id k)"
  then show "processContact h allSettings allChats k w = w"
    by (rule processContact_not_due)
next
  assume "isDue allSettings allChats (clock w) (contact_id k) \<and> \<not> flagged w (contact_id k)"
  then show "Triggering (contact_id k) \<in> set (console (processContact h allSettings allChats k w))"
    by (simp add: processContact_triggering)
next
  assume "\<not> hidden w \<and> contacts w = xs @ k # ys"
  then show "tick h w =
        scan h (chatSettings w) (chats w) ys
          (processContact h (chatSettings w) (chats w) k
             (scan h (chatSettings w) (chats w) xs w))"
    by (simp add: tick_at_contact)
next
  show "scan h allSettings allChats [] w = w" by simp
next
  assume "\<not> hidden w"
  then have "tick h w = scan h (chatSettings w) (chats w) (contacts w) w"
    by (rule tick_visible)
  then show "count_list (console w) (Triggering contactId)
         < count_list (console (tick h w)) (Triggering contactId)
       \<longleftrightarrow>
       (\<exists>xs k ys. contacts w = xs @ k # ys \<and> contact_id k = contactId \<and>
          isDue (chatSettings w) (chats w)
            (clock (scan h (chatSettings w) (chats w) xs w)) contactId \<and>
          \<not> flagged (scan h (chatSettings w) (chats w) xs w) contactId)"
    by (simp only: scan_announced_iff)
qed

lemma exChats_10: "exChats 10 = Some [userMsg 1000]"
  by (simp add: exChats_def)

lemma exSettings_10: "exSettings 10 = Some \<lparr>proactive = Some True\<rparr>"
  by (simp add: exSettings_def)

lemma exWorld_due_10: "isDue exSettings exChats (clock exWorld) (contact_id (exContact 10))"
  by (simp add: isDue_iff exWorld_def exSettings_def exChats_def exContact_def userMsg_def)

lemma exWorld_unflagged: "\<not> flagged exWorld c"
  by (simp add: exWorld_def flagged_def falsy_item_def)

lemma exWorld_stores:
  "chatSettings exWorld = exSettings" "chats exWorld = exChats"
  "contacts exWorld = [exContact 10, exContact 20]" "\<not> hidden exWorld"
  "timeouts exWorld = []" "clock exWorld = 400000"
  by (simp_all add: exWorld_def)

theorem due_iff_enabled_human_last_idle_witness:
  "exChats 10 = Some [userMsg 1000] \<and> [userMsg 1000] \<noteq> [] \<and>
   301000 - timestamp (last [userMsg 1000]) = 300000 \<and>
   \<not> isDue exSettings exChats 301000 10 \<and>
   isDue exSettings exChats 301001 10 \<and>
   \<not> hidden exWorld \<and> contacts exWorld = [] @ exContact 10 # [exContact 20] \<and>
   tick exHost exWorld =
     scan exHost exSettings exChats [exContact 20]
       (processContact exHost exSettings exChats (exContact 10) exWorld) \<and>
   count_list (console exWorld) (Triggering 10)
     < count_list (console (tick exHost exWorld)) (Triggering 10)"
proof -
  have hyp: "exChats 10 = Some [userMsg 1000] \<and> [userMsg 1000] \<noteq> [] \<and>
      301000 - timestamp (last [userMsg 1000]) = 300000"
    by (simp add: exChats_10 userMsg_def)
  have rhs: "(\<exists>s. exSettings 10 = Some s \<and> proactive s = Some True) \<and>
      (\<exists>history. exChats 10 = Some history \<and> history \<noteq> [] \<and>
         role (last history) = User \<and> 301001 - timestamp (last history) > 300000)"
    by (simp add: exChats_10 exSettings_10 userMsg_def)
  note inst = due_iff_enabled_human_last_idle
    [where allSettings = exSettings and allChats = exChats and contactId = 10
       and w = exWorld and h = exHost]
  have not_due: "\<not> isDue exSettings exChats 301000 10"
    using inst [where now = 301000, THEN conjunct2, THEN conjunct1] hyp by blast
  have due: "isDue exSettings exChats 301001 10"
    using inst [where now = 301001, THEN conjunct1] rhs by blast
  have vis: "\<not> hidden exWorld \<and> contacts exWorld = [] @ exContact 10 # [exContact 20]"
    by (simp add: exWorld_stores)
  have "tick exHost exWorld =
        scan exHost (chatSettings exWorld) (chats exWorld) [exContact 20]
          (processContact exHost (chatSettings exWorld) (chats exWorld) (exContact 10)
             (scan exHost (chatSettings exWorld) (chats exWorld) [] exWorld))"
    using inst [where xs = "[]" and k = "exContact 10" and ys = "[exContact 20]",
        THEN conjunct2, THEN conjunct2, THEN conjunct2, THEN conjunct2, THEN conjunct1] vis
    by blast
  then have at: "tick exHost exWorld =
     scan exHost exSettings exChats [exContact 20]
       (processContact exHost exSettings exChats (exContact 10) exWorld)"
    by (simp add: exWorld_stores)
  have turn: "\<exists>xs k ys. contacts exWorld = xs @ k # ys \<and> contact_id k = 10 \<and>
          isDue (chatSettings exWorld) (chats exWorld)
            (clock (scan exHost (chatSettings exWorld) (chats exWorld) xs exWorld)) 10 \<and>
          \<not> flagged (scan exHost (chatSettings exWorld) (chats exWorld) xs exWorld) 10"
  proof (intro exI conjI)
    show "contacts exWorld = [] @ exContact 10 # [exContact 20]" by (simp add: exWorld_stores)
    show "contact_id (exContact 10) = 10" by (simp add: exContact_def)
    show "isDue (chatSettings exWorld) (chats exWorld)
            (clock (scan exHost (chatSettings exWorld) (chats exWorld) [] exWorld)) 10"
      using exWorld_due_10 by (simp add: exWorld_stores exContact_def)
    show "\<not> flagged (scan exHost (chatSettings exWorld) (chats exWorld) [] exWorld) 10"
      by (simp add: exWorld_unflagged)
  qed
  have ann: "count_list (console exWorld) (Triggering 10)
     < count_list (console (tick exHost exWorld)) (Triggering 10)"
    using inst [where now = 0, THEN conjunct2, THEN conjunct2, THEN conjunct2, THEN conjunct2,
        THEN conjunct2, THEN conjunct2] vis turn
    by blast
  show ?thesis
    using hyp not_due due vis at ann by blast
qed

subsection \<open>The visibility gate\<close>

text \<open>
  Claim C9. On a tick during which the page is hidden the handler returns at once: the
  world it leaves is the world it met, with no flag set, no timeout registered, nothing
  stored and nothing logged, whatever the stores hold and whatever the service would answer.
\<close>

theorem tick_hidden_no_effect:
  "hidden w \<Longrightarrow> tick h w = w"
  by (simp add: tick_def)

theorem tick_hidden_no_effect_witness:
  "hidden (exWorld\<lparr>hidden := True\<rparr>) \<and>
   tick \<lparr>fetch = (\<lambda>c. (0, FetchRejects)), numberIsZero = (\<lambda>n. False), numberToString = (\<lambda>n. n)\<rparr>
     (exWorld\<lparr>hidden := True\<rparr>) = exWorld\<lparr>hidden := True\<rparr>"
proof -
  have h: "hidden (exWorld\<lparr>hidden := True\<rparr>)" by simp
  show ?thesis
    by (rule conjI [OF h tick_hidden_no_effect [OF h]])
qed

subsection \<open>The unread ledger\<close>








lemma unreadCounts_increment:
  "unreadCounts (incrementUnreadCount c a w) =
     (unreadCounts w)(c \<mapsto> numAdd (countOr0 (unreadCounts w) c) (callSize a))"
  by (simp add: incrementUnreadCount_def Let_def getUnreadCounts_def saveUnreadCounts_def
        console_log_def callSize_def)








lemma spacing_le: "0 < n \<Longrightarrow> spacing n \<le> n"
proof (induction n rule: spacing.induct)
  case 1
  then show ?case by simp
next
  case (2 n)
  show ?case
  proof (cases "Suc n < 2 ^ 53")
    case True
    then show ?thesis by (simp add: spacing.simps)
  next
    case False
    then have pos: "0 < Suc n div 2" by simp
    have "spacing (Suc n div 2) \<le> Suc n div 2"
      using False pos by (rule "2.IH")
    then have "2 * spacing (Suc n div 2) \<le> 2 * (Suc n div 2)" by simp
    also have "\<dots> \<le> Suc n" by simp
    finally show ?thesis using False by (simp add: spacing.simps)
  qed
qed

lemma spacing_pos: "0 < spacing n"
  by (induction n rule: spacing.induct) (simp_all add: spacing.simps)

lemma roundNat_pos: "0 < n \<Longrightarrow> 0 < roundNat n"
proof -
  assume n: "0 < n"
  let ?q = "spacing n"
  have q: "0 < ?q" by (rule spacing_pos)
  have "n mod ?q < ?q" using q by simp
  moreover have "?q \<le> n" using n by (rule spacing_le)
  ultimately have lo: "0 < n - n mod ?q" by simp
  then show ?thesis
    by (simp add: roundNat_def Let_def)
qed

lemma numAdd_pos: "0 < a + b \<Longrightarrow> 0 < numAdd a b"
  by (simp add: numAdd_def toNumber_def roundNat_pos)

lemma positive_increment:
  assumes "positiveLedger w" and "1 \<le> callSize a"
  shows "positiveLedger (incrementUnreadCount c a w)"
proof -
  have "0 \<le> countOr0 (unreadCounts w) c"
  proof (cases "unreadCounts w c")
    case None
    then show ?thesis by (simp add: countOr0_def)
  next
    case (Some v)
    with assms(1) have "0 < v" by (simp add: positiveLedger_def)
    with Some show ?thesis by (simp add: countOr0_def)
  qed
  with assms(2) have "0 < numAdd (countOr0 (unreadCounts w) c) (callSize a)"
    by (intro numAdd_pos) simp
  with assms(1) show ?thesis
    by (auto simp: positiveLedger_def unreadCounts_increment)
qed

lemma clear_present:
  assumes "unreadCounts w c = Some v" and "v \<noteq> 0"
  shows "clearUnreadCount c w =
     console_log (Cleared c) (saveUnreadCounts ((unreadCounts w)(c := None)) w)"
  using assms by (simp add: clearUnreadCount_def getUnreadCounts_def)

lemma clear_absent: "unreadCounts w c = None \<Longrightarrow> clearUnreadCount c w = w"
  by (simp add: clearUnreadCount_def getUnreadCounts_def)

lemma positive_clear:
  "positiveLedger w \<Longrightarrow> positiveLedger (clearUnreadCount c w)"
  by (auto simp: positiveLedger_def clearUnreadCount_def getUnreadCounts_def
      saveUnreadCounts_def console_log_def Let_def split: option.splits if_splits)

lemma positive_no_zero: "positiveLedger w \<Longrightarrow> unreadCounts w c \<noteq> Some 0"
  by (auto simp: positiveLedger_def)






text \<open>
  Claim C8. On the ledger as the worker keeps it, where no key holds a stored zero (every
  stored count is positive, and increments of size at least 1 and clearing keep it so):
  clearing removes the conversation's key, and only that key, when it is present, so that
  the next read finds the key absent and gives 0 by absence, not a stored zero; when the
  key is absent, clearing changes nothing at all.
\<close>

theorem clear_removes_key:
  assumes "positiveLedger w"
  shows "(unreadCounts w c \<noteq> None \<longrightarrow>
       unreadCounts (clearUnreadCount c w) = (unreadCounts w)(c := None) \<and>
       unreadCounts (clearUnreadCount c w) c = None \<and>
       countOr0 (unreadCounts (clearUnreadCount c w)) c = 0) \<and>
     (unreadCounts w c = None \<longrightarrow> clearUnreadCount c w = w) \<and>
     positiveLedger (clearUnreadCount c w) \<and>
     (\<forall>c' a. 1 \<le> callSize a \<longrightarrow> positiveLedger (incrementUnreadCount c' a w))"
proof (intro conjI allI impI)
  assume "unreadCounts w c \<noteq> None"
  then obtain v where v: "unreadCounts w c = Some v" by blast
  with assms have nz: "v \<noteq> 0" by (auto simp: positiveLedger_def)
  note eq = clear_present [OF v nz]
  show "unreadCounts (clearUnreadCount c w) = (unreadCounts w)(c := None)"
    by (simp add: eq console_log_def saveUnreadCounts_def)
  then show "unreadCounts (clearUnreadCount c w) c = None"
    and "countOr0 (unreadCounts (clearUnreadCount c w)) c = 0"
    by (simp_all add: countOr0_def)
next
  assume "unreadCounts w c = None"
  then show "clearUnreadCount c w = w" by (rule clear_absent)
next
  show "positiveLedger (clearUnreadCount c w)"
    using assms by (rule positive_clear)
next
  fix c' a
  assume "1 \<le> callSize a"
  with assms show "positiveLedger (incrementUnreadCount c' a w)"
    by (rule positive_increment)
qed

lemma exWorld_positive: "positiveLedger exWorld"
  by (simp add: positiveLedger_def exWorld_def)

theorem clear_removes_key_witness:
  "positiveLedger exWorld \<and> unreadCounts exWorld 10 \<noteq> None \<and>
   unreadCounts (clearUnreadCount 10 exWorld) = (unreadCounts exWorld)(10 := None) \<and>
   unreadCounts (clearUnreadCount 10 exWorld) 10 = None \<and>
   unreadCounts exWorld 20 = None \<and>
   clearUnreadCount 20 exWorld = exWorld \<and>
   1 \<le> callSize None \<and> positiveLedger (incrementUnreadCount 20 None exWorld)"
proof -
  have p: "unreadCounts exWorld 10 \<noteq> None" and a: "unreadCounts exWorld 20 = None"
    by (simp_all add: exWorld_def)
  have s: "1 \<le> callSize None" by (simp add: callSize_def)
  note i10 = clear_removes_key [OF exWorld_positive, of 10]
  note i20 = clear_removes_key [OF exWorld_positive, of 20]
  have r: "unreadCounts (clearUnreadCount 10 exWorld) = (unreadCounts exWorld)(10 := None) \<and>
      unreadCounts (clearUnreadCount 10 exWorld) 10 = None"
    using i10 [THEN conjunct1] p by blast
  have n: "clearUnreadCount 20 exWorld = exWorld"
    using i20 [THEN conjunct2, THEN conjunct1] a by blast
  have k: "positiveLedger (incrementUnreadCount 20 None exWorld)"
    using i20 [THEN conjunct2, THEN conjunct2, THEN conjunct2] s by blast
  show ?thesis
    by (intro conjI exWorld_positive p r [THEN conjunct1] r [THEN conjunct2] a n s k)
qed

subsection \<open>Facts about the guard\<close>

lemma pendingFlagged_empty: "timeouts w = [] \<Longrightarrow> pendingFlagged w"
  by (simp add: pendingFlagged_def)

lemma pendingFlagged_not_pending:
  "pendingFlagged w \<Longrightarrow> \<not> flagged w c \<Longrightarrow> c \<notin> snd ` set (timeouts w)"
  by (auto simp: pendingFlagged_def)

lemma distinct_snd_unique:
  "distinct (map snd ts) \<Longrightarrow> (d, c) \<in> set ts \<Longrightarrow> (d', c) \<in> set ts \<Longrightarrow> d = d'"
  by (metis distinct_map inj_on_def prod.inject snd_conv)

lemma pendingFlagged_later:
  assumes "pendingFlagged w" and "(d0, c) \<in> set (timeouts w)" and "t < d0"
  shows "\<not> (\<exists>d. (d, c) \<in> set (timeouts w) \<and> d \<le> t)"
proof
  have d: "distinct (map snd (timeouts w))" using assms(1) by (simp add: pendingFlagged_def)
  assume "\<exists>d. (d, c) \<in> set (timeouts w) \<and> d \<le> t"
  then obtain d' where d': "(d', c) \<in> set (timeouts w)" "d' \<le> t" by blast
  have "d0 = d'" using d assms(2) d'(1) by (rule distinct_snd_unique)
  with d'(2) assms(3) show False by simp
qed

lemma pendingFlagged_runTimeouts:
  assumes "pendingFlagged w"
  shows "pendingFlagged (runTimeouts t w)"
proof -
  have d: "distinct (map snd (timeouts w))" using assms by (simp add: pendingFlagged_def)
  have "distinct (map snd (filter (\<lambda>(d, c). t < d) (timeouts w)))"
    using d by (rule distinct_map_filter)
  moreover have "flagged (runTimeouts t w) c"
    if "c \<in> snd ` set (filter (\<lambda>(d, c). t < d) (timeouts w))" for c
  proof -
    from that obtain d0 where d0: "(d0, c) \<in> set (timeouts w)" "t < d0" by auto
    have "flagged w c" using assms d0(1) by (force simp: pendingFlagged_def)
    moreover have "\<not> (\<exists>d'. (d', c) \<in> set (timeouts w) \<and> d' \<le> t)"
      using assms d0 by (rule pendingFlagged_later)
    ultimately show ?thesis by (simp add: flagged_runTimeouts)
  qed
  ultimately show ?thesis
    by (simp add: pendingFlagged_def runTimeouts_frame)
qed

lemma pendingFlagged_processContact:
  assumes "pendingFlagged w"
  shows "pendingFlagged (processContact h S C k w)"
proof (cases "isDue S C (clock w) (contact_id k) \<and> \<not> flagged w (contact_id k)")
  case True
  let ?w' = "processContact h S C k w"
  let ?old = "if reachesService w (contact_id k)
      then filter (\<lambda>(d, c). clock ?w' < d) (timeouts w) else timeouts w"
  have fresh: "contact_id k \<notin> snd ` set (timeouts w)"
    using assms True by (simp add: pendingFlagged_not_pending)
  have t: "timeouts ?w' = ?old @ [(clock ?w' + 60000, contact_id k)]"
    using True by (simp add: processContact_timeouts)
  have d: "distinct (map snd (timeouts w))"
    using assms by (simp add: pendingFlagged_def)
  have sub: "set ?old \<subseteq> set (timeouts w)" by auto
  have dold: "distinct (map snd ?old)"
    using d by (simp add: distinct_map_filter)
  have fresh': "contact_id k \<notin> snd ` set ?old"
    using fresh sub by blast
  have "distinct (map snd (timeouts ?w'))"
    using dold fresh' by (simp only: t map_append distinct_append) auto
  moreover have "flagged ?w' c" if "c \<in> snd ` set (timeouts ?w')" for c
  proof -
    from that have "c = contact_id k \<or> c \<in> snd ` set ?old"
      by (simp only: t) auto
    then show ?thesis
    proof
      assume c: "c = contact_id k"
      have "\<not> (\<exists>d. (d, c) \<in> set (timeouts w) \<and> d \<le> clock ?w')"
        using fresh c by force
      with c True show ?thesis by (simp add: processContact_flagged_iff)
    next
      assume "c \<in> snd ` set ?old"
      then obtain d0 where d0: "(d0, c) \<in> set ?old" by auto
      then have m: "(d0, c) \<in> set (timeouts w)" using sub by blast
      then have f: "flagged w c" using assms by (force simp: pendingFlagged_def)
      have "\<not> (reachesService w (contact_id k) \<and>
          (\<exists>d. (d, c) \<in> set (timeouts w) \<and> d \<le> clock ?w'))"
      proof
        assume a: "reachesService w (contact_id k) \<and>
          (\<exists>d. (d, c) \<in> set (timeouts w) \<and> d \<le> clock ?w')"
        with d0 have "clock ?w' < d0" by simp
        with assms m have "\<not> (\<exists>d. (d, c) \<in> set (timeouts w) \<and> d \<le> clock ?w')"
          by (rule pendingFlagged_later)
        with a show False by simp
      qed
      with f True show ?thesis by (simp add: processContact_flagged_iff)
    qed
  qed
  ultimately show ?thesis
    by (simp add: pendingFlagged_def)
next
  case False
  then have "processContact h S C k w = w" by (rule processContact_skip)
  with assms show ?thesis by simp
qed

lemma pendingFlagged_scan:
  "pendingFlagged w \<Longrightarrow> pendingFlagged (scan h S C ks w)"
  by (induction ks arbitrary: w) (simp_all add: pendingFlagged_processContact)

lemma pendingFlagged_tick:
  "pendingFlagged w \<Longrightarrow> pendingFlagged (tick h w)"
  by (simp add: tick_def pendingFlagged_scan)

lemma reachable_pendingFlagged: "reachable w \<Longrightarrow> pendingFlagged w"
proof (induction rule: reachable.induct)
  case (session w)
  then show ?case by (simp add: pendingFlagged_empty)
next
  case (ticked w h)
  then show ?case by (simp add: pendingFlagged_tick)
next
  case (timed w t)
  then show ?case by (simp add: pendingFlagged_runTimeouts)
next
  case (stored w v)
  then show ?case by (simp add: pendingFlagged_def flagged_def)
qed

lemma admitted_pending:
  assumes due: "isDue S C (clock w) (contact_id k)" and nf: "\<not> flagged w (contact_id k)"
    and inv: "pendingFlagged w"
  shows "(d, contact_id k) \<in> set (timeouts (processContact h S C k w)) \<longleftrightarrow>
     d = clock (processContact h S C k w) + 60000"
proof -
  let ?w' = "processContact h S C k w"
  have fresh: "contact_id k \<notin> snd ` set (timeouts w)"
    using inv nf by (rule pendingFlagged_not_pending)
  then have "(d, contact_id k) \<notin> set (timeouts w)" by force
  then show ?thesis
    by (auto simp: processContact_timeouts [OF due nf])
qed

lemma admitted_flagged:
  assumes due: "isDue S C (clock w) (contact_id k)" and nf: "\<not> flagged w (contact_id k)"
    and inv: "pendingFlagged w"
  shows "flagged (processContact h S C k w) (contact_id k)"
proof -
  have fresh: "contact_id k \<notin> snd ` set (timeouts w)"
    using inv nf by (rule pendingFlagged_not_pending)
  then have "\<not> (\<exists>d. (d, contact_id k) \<in> set (timeouts w) \<and>
       d \<le> clock (processContact h S C k w))" by force
  then show ?thesis
    using due nf by (simp add: processContact_flagged_iff)
qed

lemma admitted_stays_flagged:
  assumes due: "isDue S C (clock w) (contact_id k)" and nf: "\<not> flagged w (contact_id k)"
    and inv: "pendingFlagged w" and t: "t < clock (processContact h S C k w) + 60000"
  shows "flagged (runTimeouts t (processContact h S C k w)) (contact_id k)"
proof -
  let ?w' = "processContact h S C k w"
  have "flagged ?w' (contact_id k)"
    using due nf inv by (rule admitted_flagged)
  moreover have "\<not> (\<exists>d. (d, contact_id k) \<in> set (timeouts ?w') \<and> d \<le> t)"
    using t by (simp add: admitted_pending [OF due nf inv])
  ultimately show ?thesis by (simp add: flagged_runTimeouts)
qed

lemma admitted_released:
  assumes due: "isDue S C (clock w) (contact_id k)" and nf: "\<not> flagged w (contact_id k)"
    and t: "clock (processContact h S C k w) + 60000 \<le> t"
  shows "\<not> flagged (runTimeouts t (processContact h S C k w)) (contact_id k)"
proof -
  let ?w' = "processContact h S C k w"
  have "(clock ?w' + 60000, contact_id k) \<in> set (timeouts ?w')"
    by (simp add: processContact_timeouts [OF due nf])
  with t have "\<exists>d. (d, contact_id k) \<in> set (timeouts ?w') \<and> d \<le> t" by blast
  then show ?thesis by (simp add: flagged_runTimeouts)
qed

subsection \<open>The cooldown\<close>

text \<open>
  Claim C4. For a conversation that is due and admitted, whatever the service answers and
  whether or not the call fails: when the attempt has finished (at the time it began plus
  the time the call took) the flag is still set and its removal is registered for 60000 ms
  after that moment, behind the callbacks that were pending before and did not fall due
  during the call, and it is the only callback pending for the conversation; the flag is
  set at every time before that, and from that time on the timer has removed it. The flag
  staying set rests on no older callback being pending for the conversation, which
  \<open>pendingFlagged\<close> says; every reachable state has it
  (\<open>reachable_pendingFlagged\<close>).
\<close>

theorem guard_cleared_60000_after_attempt:
  assumes "isDue S C (clock w) (contact_id k)"
    and "\<not> flagged w (contact_id k)"
    and "pendingFlagged w"
  shows "flagged (processContact h S C k w) (contact_id k) \<and>
     clock (processContact h S C k w) = clock w + int (callDuration h (contact_id k) w) \<and>
     timeouts (processContact h S C k w) =
       (if reachesService w (contact_id k)
        then filter (\<lambda>(d, c). clock (processContact h S C k w) < d) (timeouts w)
        else timeouts w) @ [(clock (processContact h S C k w) + 60000, contact_id k)] \<and>
     (\<forall>d. (d, contact_id k) \<in> set (timeouts (processContact h S C k w)) \<longleftrightarrow>
        d = clock (processContact h S C k w) + 60000) \<and>
     (\<forall>t. t < clock (processContact h S C k w) + 60000 \<longrightarrow>
        flagged (runTimeouts t (processContact h S C k w)) (contact_id k)) \<and>
     (\<forall>t. clock (processContact h S C k w) + 60000 \<le> t \<longrightarrow>
        \<not> flagged (runTimeouts t (processContact h S C k w)) (contact_id k))"
proof (intro conjI allI impI)
  show "flagged (processContact h S C k w) (contact_id k)"
    using assms by (rule admitted_flagged)
  show "clock (processContact h S C k w) = clock w + int (callDuration h (contact_id k) w)"
    using assms(1,2) by (simp add: processContact_clock)
  show "timeouts (processContact h S C k w) =
       (if reachesService w (contact_id k)
        then filter (\<lambda>(d, c). clock (processContact h S C k w) < d) (timeouts w)
        else timeouts w) @ [(clock (processContact h S C k w) + 60000, contact_id k)]"
    using assms(1,2) by (rule processContact_timeouts)
next
  fix d
  show "(d, contact_id k) \<in> set (timeouts (processContact h S C k w)) \<longleftrightarrow>
        d = clock (processContact h S C k w) + 60000"
    using assms by (rule admitted_pending)
next
  fix t
  assume "t < clock (processContact h S C k w) + 60000"
  with assms show "flagged (runTimeouts t (processContact h S C k w)) (contact_id k)"
    by (rule admitted_stays_flagged)
next
  fix t
  assume "clock (processContact h S C k w) + 60000 \<le> t"
  with assms(1,2) show "\<not> flagged (runTimeouts t (processContact h S C k w)) (contact_id k)"
    by (rule admitted_released)
qed

lemma exWorld_pending: "pendingFlagged (exWorld\<lparr>apiKey := a\<rparr>)"
  by (simp add: pendingFlagged_empty exWorld_def)

lemma exWorld_reaches_10: "reachesService exWorld 10"
  by (simp add: reachesService_def exWorld_def exContact_def falsy_item_def str_def)

lemma exWorld_duration_10: "callDuration exHost 10 exWorld = 1000"
  by (simp add: reachesService_duration exWorld_reaches_10) (simp add: exHost_def)

theorem guard_cleared_60000_after_attempt_witness:
  "isDue exSettings exChats (clock exWorld) (contact_id (exContact 10)) \<and>
   \<not> flagged exWorld (contact_id (exContact 10)) \<and> pendingFlagged exWorld \<and>
   clock (processContact exHost exSettings exChats (exContact 10) exWorld) = 401000 \<and>
   timeouts (processContact exHost exSettings exChats (exContact 10) exWorld) = [(461000, 10)] \<and>
   flagged (runTimeouts 460999 (processContact exHost exSettings exChats (exContact 10) exWorld)) 10 \<and>
   \<not> flagged (runTimeouts 461000 (processContact exHost exSettings exChats (exContact 10) exWorld)) 10 \<and>
   clock (processContact exHost exSettings exChats (exContact 10) (exWorld\<lparr>apiKey := None\<rparr>)) = 400000 \<and>
   timeouts (processContact exHost exSettings exChats (exContact 10) (exWorld\<lparr>apiKey := None\<rparr>))
     = [(460000, 10)] \<and>
   flagged (runTimeouts 459999
     (processContact exHost exSettings exChats (exContact 10) (exWorld\<lparr>apiKey := None\<rparr>))) 10"
proof -
  let ?k = "exContact 10"
  let ?w' = "processContact exHost exSettings exChats ?k exWorld"
  let ?v = "exWorld\<lparr>apiKey := None\<rparr>"
  let ?v' = "processContact exHost exSettings exChats ?k ?v"
  have kid: "contact_id ?k = 10" by (simp add: exContact_def)
  have due: "isDue exSettings exChats (clock exWorld) (contact_id ?k)"
    by (rule exWorld_due_10)
  have nf: "\<not> flagged exWorld (contact_id ?k)" by (rule exWorld_unflagged)
  have inv: "pendingFlagged exWorld" using exWorld_pending [of "apiKey exWorld"] by simp
  have ts: "timeouts exWorld = []" and ck: "clock exWorld = 400000"
    by (simp_all add: exWorld_def)
  note ok = guard_cleared_60000_after_attempt [OF due nf inv, of exHost]
  have c: "clock ?w' = 401000"
    using ok [THEN conjunct2, THEN conjunct1]
    by (simp add: kid exWorld_duration_10 ck)
  have t: "timeouts ?w' = [(461000, 10)]"
    using ok [THEN conjunct2, THEN conjunct2, THEN conjunct1]
    by (simp add: kid c ts)
  have f1: "flagged (runTimeouts 460999 ?w') 10"
    using ok [THEN conjunct2, THEN conjunct2, THEN conjunct2, THEN conjunct2, THEN conjunct1,
        rule_format, of 460999]
    by (simp add: kid c)
  have f2: "\<not> flagged (runTimeouts 461000 ?w') 10"
    using ok [THEN conjunct2, THEN conjunct2, THEN conjunct2, THEN conjunct2, THEN conjunct2,
        rule_format, of 461000]
    by (simp add: kid c)
  have due': "isDue exSettings exChats (clock ?v) (contact_id ?k)"
    using exWorld_due_10 by simp
  have nf': "\<not> flagged ?v (contact_id ?k)"
    using exWorld_unflagged [of "contact_id ?k"] by (simp add: flagged_def)
  have inv': "pendingFlagged ?v" by (rule exWorld_pending)
  have nr: "\<not> reachesService ?v 10" by (simp add: reachesService_def falsy_item_def)
  note bad = guard_cleared_60000_after_attempt [OF due' nf' inv', of exHost]
  have c': "clock ?v' = 400000"
    using bad [THEN conjunct2, THEN conjunct1]
    by (simp add: kid reachesService_duration nr ck)
  have t': "timeouts ?v' = [(460000, 10)]"
    using bad [THEN conjunct2, THEN conjunct2, THEN conjunct1]
    by (simp add: kid c' ts)
  have f1': "flagged (runTimeouts 459999 ?v') 10"
    using bad [THEN conjunct2, THEN conjunct2, THEN conjunct2, THEN conjunct2, THEN conjunct1,
        rule_format, of 459999]
    by (simp add: kid c')
  show ?thesis
    by (intro conjI due nf inv c t f1 f2 c' t' f1')
qed

end
